theory Spec2Isabelle
  imports Main
begin

section \<open>The hierarchical state machine engine of state\_machine.c\<close>

text \<open>
  The engine works on a graph of \<^verbatim>\<open>struct state\<close> objects linked by pointers
  (\<^verbatim>\<open>state_parent\<close>, \<^verbatim>\<open>state_entry\<close>, \<^verbatim>\<open>transition.state_next\<close>).  The graph may be
  cyclic, and the engine compares states by address, so states are kept in an explicit
  store: a state pointer is \<open>sref option\<close> (\<open>None\<close> is \<^verbatim>\<open>NULL\<close>), and the store maps
  every address to the state object found there.  The engine never writes to the
  store.

  \<^verbatim>\<open>void *\<close> values (state data, event payload, guard condition) are opaque to the
  engine and are modelled as numbers.  The three kinds of action callbacks are
  function pointers whose bodies belong to the application; a non-null action pointer
  is modelled by an identifier, and calling it is recorded in a trace of calls with
  the arguments passed.  Callbacks are taken not to write to the machine, the graph or
  the event.  Guards are predicates on the condition and the event and are modelled
  as HOL functions.
\<close>

subsection \<open>Data (state\_machine.h)\<close>

type_synonym sref = nat
type_synonym vptr = nat
type_synonym fnptr = nat

record event =
  type :: int
  payload :: vptr

text \<open>The field \<^verbatim>\<open>data\<close> of \<^verbatim>\<open>struct event\<close> is named \<open>payload\<close> here, since
  \<^verbatim>\<open>struct state\<close> has a field \<^verbatim>\<open>data\<close> too.\<close>

record transition =
  event_type :: int
  condition :: vptr
  guard :: "(vptr \<Rightarrow> event \<Rightarrow> bool) option"
  action :: "fnptr option"
  state_next :: "sref option"

text \<open>
  The pair \<^verbatim>\<open>transitions\<close>, \<^verbatim>\<open>transition_nums\<close> of \<^verbatim>\<open>struct state\<close> is an array with
  its length; it is modelled as a list, and \<open>transition_nums\<close> is the length of it.
\<close>

record state =
  state_parent :: "sref option"
  state_entry :: "sref option"
  transitions :: "transition list"
  data :: vptr
  action_entry :: "fnptr option"
  action_exti :: "fnptr option"

definition transition_nums :: "state \<Rightarrow> nat" where
  "transition_nums s = length (transitions s)"

record state_machine =
  state_current :: "sref option"
  state_previous :: "sref option"
  state_error :: "sref option"

type_synonym store = "sref \<Rightarrow> state"

datatype retval =
    STATEM_ERR_ARG
  | STATEM_ERR_STATE_RECHED
  | STATEM_STATE_CHANGED
  | STATEM_STATE_LOOPSELF
  | STATEM_STATE_NOCHANGE
  | STATEM_FINAL_STATE_RECHED

text \<open>The values of \<^verbatim>\<open>enum statem_handle_event_return_vals\<close>.\<close>

fun retval_int :: "retval \<Rightarrow> int" where
  "retval_int STATEM_ERR_ARG = -2"
| "retval_int STATEM_ERR_STATE_RECHED = -1"
| "retval_int STATEM_STATE_CHANGED = 0"
| "retval_int STATEM_STATE_LOOPSELF = 1"
| "retval_int STATEM_STATE_NOCHANGE = 2"
| "retval_int STATEM_FINAL_STATE_RECHED = 3"

text \<open>
  A call of a callback: which function, and the arguments it received.
  \<open>Exit_call f d e\<close> is \<^verbatim>\<open>action_exti( d, e )\<close>, \<open>Action_call f d e d'\<close> is a
  transition's \<^verbatim>\<open>action( d, e, d' )\<close>, \<open>Entry_call f d e\<close> is \<^verbatim>\<open>action_entry( d, e )\<close>.
\<close>

datatype call =
    Exit_call fnptr vptr event
  | Action_call fnptr vptr event vptr
  | Entry_call fnptr vptr event

datatype error = Null_dereference

subsection \<open>statem\_init\<close>

text \<open>
  The machine is passed by pointer and written in place: the model takes the machine
  (\<open>None\<close> for a null pointer) and returns the returned integer, the machine after the
  call and the calls made.
\<close>

definition statem_init ::
  "state_machine option \<Rightarrow> sref option \<Rightarrow> sref option \<Rightarrow> int \<times> state_machine option \<times> call list" where
  "statem_init fsm state_init state_err =
     (case fsm of
        None \<Rightarrow> (-1, None, [])
      | Some m \<Rightarrow>
          (0,
           Some (m\<lparr>state_current := state_init, state_previous := None,
                   state_error := state_err\<rparr>),
           []))"

subsection \<open>go\_to\_state\_error\<close>

definition go_to_state_error ::
  "store \<Rightarrow> state_machine \<Rightarrow> event \<Rightarrow> state_machine \<times> call list" where
  "go_to_state_error h fsm ev =
     (let fsm1 = fsm\<lparr>state_previous := state_current fsm\<rparr>;
          fsm2 = fsm1\<lparr>state_current := state_error fsm1\<rparr>
      in (fsm2,
          case state_current fsm2 of
            None \<Rightarrow> []
          | Some c \<Rightarrow>
              (case action_entry (h c) of
                 None \<Rightarrow> []
               | Some f \<Rightarrow> [Entry_call f (data (h c)) ev])))"

subsection \<open>get\_transition\<close>

text \<open>The \<^verbatim>\<open>for\<close> loop over the indices of the transition array, from index \<open>i\<close> on.\<close>

function get_transition_from :: "nat \<Rightarrow> transition list \<Rightarrow> event \<Rightarrow> transition option" where
  "get_transition_from i ts ev =
     (if i < length ts then
        (if event_type (ts ! i) = type ev then
           (case guard (ts ! i) of
              None \<Rightarrow> Some (ts ! i)
            | Some g \<Rightarrow>
                if g (condition (ts ! i)) ev then Some (ts ! i)
                else get_transition_from (Suc i) ts ev)
         else get_transition_from (Suc i) ts ev)
      else None)"
  by pat_completeness auto
termination
  by (relation "measure (\<lambda>(i, ts, ev). length ts - i)") auto

declare get_transition_from.simps [simp del]

text \<open>The parameter \<^verbatim>\<open>state_machine\<close> of the source is not used by it and is left out.\<close>

definition get_transition :: "store \<Rightarrow> sref option \<Rightarrow> event \<Rightarrow> transition option" where
  "get_transition h st ev =
     (case st of
        None \<Rightarrow> None
      | Some s \<Rightarrow> get_transition_from 0 (transitions (h s)) ev)"

subsection \<open>statem\_handle\_event\<close>

text \<open>
  The inner \<^verbatim>\<open>while\<close> loop that steps down through \<^verbatim>\<open>state_entry\<close>.  A cyclic entry
  chain makes it run forever: the result \<open>None\<close> is "does not return".
\<close>

partial_function (option) entry_descent :: "store \<Rightarrow> sref \<Rightarrow> sref option" where
  "entry_descent h s =
     (case state_entry (h s) of
        None \<Rightarrow> Some s
      | Some e \<Rightarrow> entry_descent h e)"

text \<open>
  The part of the loop body that follows a found transition \<open>t\<close> (from the test of
  \<^verbatim>\<open>transition->state_next\<close> to \<^verbatim>\<open>return STATEM_STATE_CHANGED\<close>).  \<open>cur\<close> is the
  non-null \<^verbatim>\<open>fsm->state_current\<close>.
\<close>

definition take_transition ::
  "store \<Rightarrow> state_machine \<Rightarrow> sref \<Rightarrow> event \<Rightarrow> transition
     \<Rightarrow> (retval \<times> state_machine \<times> call list) option" where
  "take_transition h fsm cur ev t =
     (case state_next t of
        None \<Rightarrow>
          (case go_to_state_error h fsm ev of
             (fsm', cs) \<Rightarrow> Some (STATEM_ERR_STATE_RECHED, fsm', cs))
      | Some n \<Rightarrow>
          (case entry_descent h n of
             None \<Rightarrow> None
           | Some nxt \<Rightarrow>
               (let cs1 = (if nxt \<noteq> cur then
                             (case action_exti (h cur) of
                                None \<Rightarrow> []
                              | Some f \<Rightarrow> [Exit_call f (data (h cur)) ev])
                           else []);
                    cs2 = (case action t of
                             None \<Rightarrow> []
                           | Some a \<Rightarrow> [Action_call a (data (h cur)) ev (data (h nxt))]);
                    cs3 = (if nxt \<noteq> cur then
                             (case action_entry (h nxt) of
                                None \<Rightarrow> []
                              | Some f \<Rightarrow> [Entry_call f (data (h nxt)) ev])
                           else []);
                    fsm1 = fsm\<lparr>state_previous := state_current fsm\<rparr>;
                    fsm2 = fsm1\<lparr>state_current := Some nxt\<rparr>
                in Some
                     (if state_current fsm2 = state_previous fsm2 then STATEM_STATE_LOOPSELF
                      else if state_current fsm2 = state_error fsm2 then STATEM_ERR_STATE_RECHED
                      else if transition_nums (h nxt) = 0 \<and> state_parent (h nxt) = None
                        then STATEM_FINAL_STATE_RECHED
                      else STATEM_STATE_CHANGED,
                      fsm2, cs1 @ cs2 @ cs3))))"

text \<open>
  The \<^verbatim>\<open>do ... while ( state_next )\<close> loop, entered with \<open>sn\<close> the non-null
  \<^verbatim>\<open>state_next\<close>.  Without a transition at \<open>sn\<close> it goes on with the parent, and leaves
  the loop with \<^verbatim>\<open>STATEM_STATE_NOCHANGE\<close> when the parent is null.  A cyclic parent
  chain without a transition makes it run forever.
\<close>

partial_function (option) handle_event_loop ::
  "store \<Rightarrow> state_machine \<Rightarrow> sref \<Rightarrow> event \<Rightarrow> sref
     \<Rightarrow> (retval \<times> state_machine \<times> call list) option" where
  "handle_event_loop h fsm cur ev sn =
     (case get_transition h (Some sn) ev of
        None \<Rightarrow>
          (case state_parent (h sn) of
             None \<Rightarrow> Some (STATEM_STATE_NOCHANGE, fsm, [])
           | Some p \<Rightarrow> handle_event_loop h fsm cur ev p)
      | Some t \<Rightarrow> take_transition h fsm cur ev t)"

text \<open>
  The machine and the event are passed by pointer (\<open>None\<close> for a null pointer).  The
  result is \<open>None\<close> when the call does not return, and otherwise the returned value, the
  machine after the call and the calls made, in order.
\<close>

definition statem_handle_event ::
  "store \<Rightarrow> state_machine option \<Rightarrow> event option
     \<Rightarrow> (retval \<times> state_machine option \<times> call list) option" where
  "statem_handle_event h fsm event =
     (case fsm of
        None \<Rightarrow> Some (STATEM_ERR_ARG, fsm, [])
      | Some m \<Rightarrow>
          (case event of
             None \<Rightarrow> Some (STATEM_ERR_ARG, fsm, [])
           | Some ev \<Rightarrow>
               (case state_current m of
                  None \<Rightarrow>
                    (case go_to_state_error h m ev of
                       (m', cs) \<Rightarrow> Some (STATEM_ERR_STATE_RECHED, Some m', cs))
                | Some cur \<Rightarrow>
                    if transition_nums (h cur) = 0 \<and> state_parent (h cur) = None
                    then Some (STATEM_STATE_NOCHANGE, fsm, [])
                    else
                      (case handle_event_loop h m cur ev cur of
                         None \<Rightarrow> None
                       | Some (r, m', cs) \<Rightarrow> Some (r, Some m', cs)))))"

subsection \<open>Queries\<close>

definition statem_state_current :: "state_machine option \<Rightarrow> sref option" where
  "statem_state_current fsm = (case fsm of None \<Rightarrow> None | Some m \<Rightarrow> state_current m)"

definition statem_state_previous :: "state_machine option \<Rightarrow> sref option" where
  "statem_state_previous fsm = (case fsm of None \<Rightarrow> None | Some m \<Rightarrow> state_previous m)"

text \<open>
  \<^verbatim>\<open>statem_stopped\<close> reads \<^verbatim>\<open>state_machine->state_current->transition_nums\<close> without
  testing \<^verbatim>\<open>state_current\<close>: with a null current state the read is a null-pointer
  dereference, the error \<open>Null_dereference\<close> of the model.
\<close>

definition statem_stopped :: "store \<Rightarrow> state_machine option \<Rightarrow> error + int" where
  "statem_stopped h fsm =
     (case fsm of
        None \<Rightarrow> Inr (-1)
      | Some m \<Rightarrow>
          (case state_current m of
             None \<Rightarrow> Inl Null_dereference
           | Some c \<Rightarrow> Inr (if transition_nums (h c) = 0 then 1 else 0)))"

declare entry_descent.simps [code]
declare handle_event_loop.simps [code]

section \<open>Notions of the specification\<close>

text \<open>
  A transition is enabled for an event when its \<^verbatim>\<open>event_type\<close> is the event's type and
  its guard is absent or holds of the condition and the event; \<open>first_enabled\<close> is the
  first enabled entry of a table in declaration order.
\<close>

definition enabled :: "event \<Rightarrow> transition \<Rightarrow> bool" where
  "enabled ev t =
     (event_type t = type ev \<and>
      (case guard t of None \<Rightarrow> True | Some g \<Rightarrow> g (condition t) ev))"

definition first_enabled :: "transition list \<Rightarrow> event \<Rightarrow> transition option" where
  "first_enabled ts ev = find (enabled ev) ts"

text \<open>
  \<open>entry_chain h s es\<close>: the entry chain of \<open>s\<close> is finite; \<open>es\<close> lists the states
  reached by following \<^verbatim>\<open>state_entry\<close> from \<open>s\<close>, the last of which (or \<open>s\<close> itself, when
  \<open>es\<close> is empty) has a null \<^verbatim>\<open>state_entry\<close>.
\<close>

fun entry_chain :: "store \<Rightarrow> sref \<Rightarrow> sref list \<Rightarrow> bool" where
  "entry_chain h s [] = (state_entry (h s) = None)"
| "entry_chain h s (e # es) = (state_entry (h s) = Some e \<and> entry_chain h e es)"

text \<open>
  The lookup chain of an event from a state \<open>s\<close>.  \<open>chain_matches h ev s ps t\<close>: the
  states \<open>ps\<close> are the successive parents of \<open>s\<close>, no state before the last one of
  \<open>s # ps\<close> has a transition for the event, and the last one has the transition \<open>t\<close>.
  \<open>chain_exhausted h ev s ps\<close>: no state of \<open>s # ps\<close> has a transition for the event, and
  the last one has a null parent.
\<close>

fun chain_matches :: "store \<Rightarrow> event \<Rightarrow> sref \<Rightarrow> sref list \<Rightarrow> transition \<Rightarrow> bool" where
  "chain_matches h ev s [] t = (get_transition h (Some s) ev = Some t)"
| "chain_matches h ev s (p # ps) t =
     (get_transition h (Some s) ev = None \<and> state_parent (h s) = Some p \<and>
      chain_matches h ev p ps t)"

fun chain_exhausted :: "store \<Rightarrow> event \<Rightarrow> sref \<Rightarrow> sref list \<Rightarrow> bool" where
  "chain_exhausted h ev s [] =
     (get_transition h (Some s) ev = None \<and> state_parent (h s) = None)"
| "chain_exhausted h ev s (p # ps) =
     (get_transition h (Some s) ev = None \<and> state_parent (h s) = Some p \<and>
      chain_exhausted h ev p ps)"

section \<open>Example state graphs\<close>

text \<open>
  The graph of examples/state\_machine\_example.c: the group state
  \<^verbatim>\<open>state_charsgroup_check\<close> at address 0 and its children \<^verbatim>\<open>state_idle\<close>, \<^verbatim>\<open>state_h\<close>,
  \<^verbatim>\<open>state_i\<close>, \<^verbatim>\<open>state_a\<close> at 1 to 4, the error state at 5.  Conditions are character
  codes, state data are the addresses 200 to 205 of the name strings, and the
  callbacks are numbered: 1 \<^verbatim>\<open>print_msg_enter\<close>, 2 \<^verbatim>\<open>print_msg_exit\<close>,
  3 \<^verbatim>\<open>print_msg_recognised_char\<close>, 4 \<^verbatim>\<open>print_msg_err\<close>, 5 \<^verbatim>\<open>print_msg_reset\<close>,
  6 \<^verbatim>\<open>print_msg_unrecognised_char\<close>, 7 \<^verbatim>\<open>print_msg_hi\<close>, 8 \<^verbatim>\<open>print_msg_ha\<close>.
\<close>

definition EVENT_KEYBOARD :: int where "EVENT_KEYBOARD = 0"

definition keyboard_char_compare :: "vptr \<Rightarrow> event \<Rightarrow> bool" where
  "keyboard_char_compare ch ev = (if type ev \<noteq> EVENT_KEYBOARD then False else ch = payload ev)"

definition state_charsgroup_check :: state where
  "state_charsgroup_check =
     \<lparr>state_parent = None, state_entry = Some 1,
      transitions =
        [\<lparr>event_type = EVENT_KEYBOARD, condition = 33, guard = Some keyboard_char_compare,
          action = Some 5, state_next = Some 1\<rparr>,
         \<lparr>event_type = EVENT_KEYBOARD, condition = 0, guard = None,
          action = Some 6, state_next = Some 1\<rparr>],
      data = 200, action_entry = Some 1, action_exti = Some 2\<rparr>"

definition state_idle :: state where
  "state_idle =
     \<lparr>state_parent = Some 0, state_entry = None,
      transitions =
        [\<lparr>event_type = EVENT_KEYBOARD, condition = 104, guard = Some keyboard_char_compare,
          action = None, state_next = Some 2\<rparr>],
      data = 201, action_entry = Some 1, action_exti = Some 2\<rparr>"

definition state_h :: state where
  "state_h =
     \<lparr>state_parent = Some 0, state_entry = None,
      transitions =
        [\<lparr>event_type = EVENT_KEYBOARD, condition = 97, guard = Some keyboard_char_compare,
          action = None, state_next = Some 4\<rparr>,
         \<lparr>event_type = EVENT_KEYBOARD, condition = 105, guard = Some keyboard_char_compare,
          action = None, state_next = Some 3\<rparr>],
      data = 202, action_entry = Some 3, action_exti = Some 2\<rparr>"

definition state_i :: state where
  "state_i =
     \<lparr>state_parent = Some 0, state_entry = None,
      transitions =
        [\<lparr>event_type = EVENT_KEYBOARD, condition = 110, guard = Some keyboard_char_compare,
          action = Some 7, state_next = Some 1\<rparr>],
      data = 203, action_entry = Some 3, action_exti = Some 2\<rparr>"

definition state_a :: state where
  "state_a =
     \<lparr>state_parent = Some 0, state_entry = None,
      transitions =
        [\<lparr>event_type = EVENT_KEYBOARD, condition = 110, guard = Some keyboard_char_compare,
          action = Some 8, state_next = Some 1\<rparr>],
      data = 204, action_entry = Some 3, action_exti = Some 2\<rparr>"

definition state_error_kbd :: state where
  "state_error_kbd =
     \<lparr>state_parent = None, state_entry = None,
      transitions =
        [\<lparr>event_type = EVENT_KEYBOARD, condition = 105, guard = Some keyboard_char_compare,
          action = None, state_next = Some 3\<rparr>],
      data = 205, action_entry = Some 4, action_exti = None\<rparr>"

definition kbd_store :: store where
  "kbd_store a =
     (if a = 0 then state_charsgroup_check
      else if a = 1 then state_idle
      else if a = 2 then state_h
      else if a = 3 then state_i
      else if a = 4 then state_a
      else state_error_kbd)"

definition kbd_machine :: "sref \<Rightarrow> state_machine" where
  "kbd_machine c = \<lparr>state_current = Some c, state_previous = None, state_error = Some 5\<rparr>"

definition key :: "nat \<Rightarrow> event" where
  "key c = \<lparr>type = EVENT_KEYBOARD, payload = c\<rparr>"

text \<open>
  A second graph with the corner cases: a root state 0 whose transitions lead to a final
  state 1, to no state at all (a null \<^verbatim>\<open>state_next\<close>), to the final error state 2 and to
  state 3, which has no transitions but has the parent 0.  Every other address holds a
  state whose table has an unconditional transition for keyboard events followed by a
  guarded one.
\<close>

definition demo_store :: store where
  "demo_store a =
     (if a = 0 then
        \<lparr>state_parent = None, state_entry = None,
         transitions =
           [\<lparr>event_type = 1, condition = 0, guard = None, action = Some 10, state_next = Some 1\<rparr>,
            \<lparr>event_type = 2, condition = 0, guard = None, action = Some 11, state_next = None\<rparr>,
            \<lparr>event_type = 3, condition = 0, guard = None, action = None, state_next = Some 2\<rparr>,
            \<lparr>event_type = 4, condition = 0, guard = None, action = None, state_next = Some 3\<rparr>],
         data = 300, action_entry = Some 20, action_exti = Some 21\<rparr>
      else if a = 1 then
        \<lparr>state_parent = None, state_entry = None, transitions = [],
         data = 301, action_entry = Some 22, action_exti = None\<rparr>
      else if a = 2 then
        \<lparr>state_parent = None, state_entry = None, transitions = [],
         data = 302, action_entry = Some 23, action_exti = None\<rparr>
      else if a = 3 then
        \<lparr>state_parent = Some 0, state_entry = None, transitions = [],
         data = 303, action_entry = Some 24, action_exti = Some 25\<rparr>
      else
        \<lparr>state_parent = None, state_entry = None,
         transitions =
           [\<lparr>event_type = EVENT_KEYBOARD, condition = 0, guard = None,
             action = Some 12, state_next = Some 1\<rparr>,
            \<lparr>event_type = EVENT_KEYBOARD, condition = 33, guard = Some keyboard_char_compare,
             action = Some 13, state_next = Some 2\<rparr>],
         data = 304, action_entry = None, action_exti = None\<rparr>)"

definition demo_machine :: "sref option \<Rightarrow> state_machine" where
  "demo_machine c = \<lparr>state_current = c, state_previous = None, state_error = Some 2\<rparr>"

definition demo_event :: "int \<Rightarrow> event" where
  "demo_event n = \<lparr>type = n, payload = 0\<rparr>"

text \<open>
  A third graph with nested group states: the transition of the root state 0 for event
  type 1 and the transition of the group state 1 for event type 2 both lead to the group
  state 1, whose entry state is the group state 2, whose entry state is the leaf 3.  The
  leaf is a child of 2, which is a child of 1.  Every state has its own data and its own
  entry and exit actions.
\<close>

definition nested_store :: store where
  "nested_store a =
     (if a = 0 then
        \<lparr>state_parent = None, state_entry = None,
         transitions =
           [\<lparr>event_type = 1, condition = 0, guard = None, action = Some 30, state_next = Some 1\<rparr>],
         data = 400, action_entry = Some 40, action_exti = Some 41\<rparr>
      else if a = 1 then
        \<lparr>state_parent = None, state_entry = Some 2,
         transitions =
           [\<lparr>event_type = 2, condition = 0, guard = None, action = Some 31, state_next = Some 1\<rparr>],
         data = 401, action_entry = Some 42, action_exti = Some 43\<rparr>
      else if a = 2 then
        \<lparr>state_parent = Some 1, state_entry = Some 3, transitions = [],
         data = 402, action_entry = Some 44, action_exti = Some 45\<rparr>
      else
        \<lparr>state_parent = Some 2, state_entry = None, transitions = [],
         data = 403, action_entry = Some 46, action_exti = Some 47\<rparr>)"

definition nested_machine :: "sref \<Rightarrow> state_machine" where
  "nested_machine c = \<lparr>state_current = Some c, state_previous = None, state_error = None\<rparr>"

section \<open>Auxiliary facts\<close>

lemmas kbd_defs = kbd_store_def state_charsgroup_check_def state_idle_def state_h_def
  state_i_def state_a_def state_error_kbd_def kbd_machine_def key_def EVENT_KEYBOARD_def
  keyboard_char_compare_def

lemmas demo_defs = demo_store_def demo_machine_def demo_event_def

lemmas nested_defs = nested_store_def nested_machine_def demo_event_def


lemma get_transition_from_find:
  "get_transition_from i ts ev = find (enabled ev) (drop i ts)"
proof (induction i ts ev rule: get_transition_from.induct)
  case (1 i ts ev)
  show ?case
  proof (cases "i < length ts")
    case False
    then show ?thesis by (simp add: get_transition_from.simps [of i])
  next
    case True
    then have d: "drop i ts = ts ! i # drop (Suc i) ts"
      by (simp add: Cons_nth_drop_Suc)
    show ?thesis
    proof (cases "enabled ev (ts ! i)")
      case en: True
      then show ?thesis using True d
        by (auto simp: get_transition_from.simps [of i] enabled_def split: option.splits)
    next
      case en: False
      then show ?thesis using True d "1.IH"
        by (auto simp: get_transition_from.simps [of i] enabled_def split: option.splits)
    qed
  qed
qed

lemma get_transition_Some:
  "get_transition h (Some s) ev = find (enabled ev) (transitions (h s))"
  by (simp add: get_transition_def get_transition_from_find)

lemma get_transition_empty:
  "transitions (h s) = [] \<Longrightarrow> get_transition h (Some s) ev = None"
  by (simp add: get_transition_Some)

lemma entry_descent_chain:
  "entry_chain h s es \<Longrightarrow> entry_descent h s = Some (last (s # es))"
proof (induction es arbitrary: s)
  case Nil
  then show ?case by (simp add: entry_descent.simps [of h s])
next
  case (Cons e es)
  then have "entry_descent h e = Some (last (e # es))" by simp
  with Cons.prems show ?case by (simp add: entry_descent.simps [of h s])
qed

lemma entry_chain_last:
  "entry_chain h s es \<Longrightarrow> state_entry (h (last (s # es))) = None"
  by (induction es arbitrary: s) auto

lemma entry_descent_leaf:
  "state_entry (h s) = None \<Longrightarrow> entry_descent h s = Some s"
  by (simp add: entry_descent.simps [of h s])

lemma entry_descent_lands:
  assumes "entry_descent h s = Some l"
  shows "state_entry (h l) = None"
proof (rule entry_descent.raw_induct [where P = "\<lambda>h s l. state_entry (h l) = None", OF _ assms])
  fix ed :: "store \<Rightarrow> sref \<Rightarrow> sref option" and h :: store and s l :: sref
  assume IH: "\<And>h s l. ed h s = Some l \<Longrightarrow> state_entry (h l) = None"
    and step: "(case state_entry (h s) of None \<Rightarrow> Some s | Some e \<Rightarrow> ed h e) = Some l"
  show "state_entry (h l) = None"
  proof (cases "state_entry (h s)")
    case None
    with step show ?thesis by simp
  next
    case (Some e)
    with step have "ed h e = Some l" by simp
    then show ?thesis by (rule IH)
  qed
qed

lemma loop_matches:
  "chain_matches h ev s ps t \<Longrightarrow>
   handle_event_loop h fsm cur ev s = take_transition h fsm cur ev t"
proof (induction ps arbitrary: s)
  case Nil
  then show ?case by (simp add: handle_event_loop.simps [of h fsm cur ev s])
next
  case (Cons p ps)
  then have "handle_event_loop h fsm cur ev p = take_transition h fsm cur ev t" by simp
  with Cons.prems show ?case by (simp add: handle_event_loop.simps [of h fsm cur ev s])
qed

lemma loop_exhausted:
  "chain_exhausted h ev s ps \<Longrightarrow>
   handle_event_loop h fsm cur ev s = Some (STATEM_STATE_NOCHANGE, fsm, [])"
proof (induction ps arbitrary: s)
  case Nil
  then show ?case by (simp add: handle_event_loop.simps [of h fsm cur ev s])
next
  case (Cons p ps)
  then have "handle_event_loop h fsm cur ev p = Some (STATEM_STATE_NOCHANGE, fsm, [])" by simp
  with Cons.prems show ?case by (simp add: handle_event_loop.simps [of h fsm cur ev s])
qed

lemma chain_matches_not_terminal:
  "chain_matches h ev s ps t \<Longrightarrow>
   \<not> (transition_nums (h s) = 0 \<and> state_parent (h s) = None)"
  by (cases ps) (auto simp: transition_nums_def get_transition_Some)

lemma take_transition_null_next:
  "state_next t = None \<Longrightarrow>
   take_transition h fsm cur ev t =
     Some (STATEM_ERR_STATE_RECHED,
           fsm\<lparr>state_previous := state_current fsm, state_current := state_error fsm\<rparr>,
           (case state_error fsm of
              None \<Rightarrow> []
            | Some e \<Rightarrow>
                (case action_entry (h e) of
                   None \<Rightarrow> []
                 | Some f \<Rightarrow> [Entry_call f (data (h e)) ev])))"
  by (simp add: take_transition_def go_to_state_error_def Let_def)

lemma take_transition_resolved:
  "state_next t = Some n \<Longrightarrow> entry_descent h n = Some tgt \<Longrightarrow> state_current fsm = Some cur \<Longrightarrow>
   take_transition h fsm cur ev t =
     Some (if tgt = cur then STATEM_STATE_LOOPSELF
           else if Some tgt = state_error fsm then STATEM_ERR_STATE_RECHED
           else if transitions (h tgt) = [] \<and> state_parent (h tgt) = None
             then STATEM_FINAL_STATE_RECHED
           else STATEM_STATE_CHANGED,
           fsm\<lparr>state_previous := Some cur, state_current := Some tgt\<rparr>,
           (if tgt \<noteq> cur then
              (case action_exti (h cur) of
                 None \<Rightarrow> []
               | Some f \<Rightarrow> [Exit_call f (data (h cur)) ev])
            else []) @
           (case action t of
              None \<Rightarrow> []
            | Some a \<Rightarrow> [Action_call a (data (h cur)) ev (data (h tgt))]) @
           (if tgt \<noteq> cur then
              (case action_entry (h tgt) of
                 None \<Rightarrow> []
               | Some f \<Rightarrow> [Entry_call f (data (h tgt)) ev])
            else []))"
  by (simp add: take_transition_def Let_def transition_nums_def)

lemma handle_event_matches:
  assumes "state_current fsm = Some cur" and "chain_matches h ev cur ps t"
  shows "statem_handle_event h (Some fsm) (Some ev) =
           map_option (\<lambda>(r, m', cs). (r, Some m', cs)) (take_transition h fsm cur ev t)"
proof -
  have "\<not> (transition_nums (h cur) = 0 \<and> state_parent (h cur) = None)"
    using assms(2) by (rule chain_matches_not_terminal)
  moreover have "handle_event_loop h fsm cur ev cur = take_transition h fsm cur ev t"
    using assms(2) by (rule loop_matches)
  ultimately show ?thesis
    using assms(1) by (auto simp: statem_handle_event_def split: option.splits)
qed


text \<open>
  The engine does not detect cycles.  On a state that is its own entry state the descent
  does not return, and on a state that is its own parent and has no transition for the
  event the dispatch does not return.
\<close>

lemma entry_descent_self_cycle:
  assumes "state_entry (h s) = Some s"
  shows "entry_descent h s = None"
proof (rule ccontr)
  assume "entry_descent h s \<noteq> None"
  then obtain l where l: "entry_descent h s = Some l" by auto
  have "state_entry (h s) \<noteq> Some s"
  proof (rule entry_descent.raw_induct
      [where P = "\<lambda>h s l. state_entry (h s) \<noteq> Some s", OF _ l])
    fix ed :: "store \<Rightarrow> sref \<Rightarrow> sref option" and h :: store and s l :: sref
    assume IH: "\<And>h s l. ed h s = Some l \<Longrightarrow> state_entry (h s) \<noteq> Some s"
      and step: "(case state_entry (h s) of None \<Rightarrow> Some s | Some e \<Rightarrow> ed h e) = Some l"
    show "state_entry (h s) \<noteq> Some s"
    proof
      assume c: "state_entry (h s) = Some s"
      with step have "ed h s = Some l" by simp
      from IH [OF this] c show False by simp
    qed
  qed
  with assms show False by simp
qed

lemma handle_event_loop_self_parent:
  assumes "state_parent (h s) = Some s" and "get_transition h (Some s) ev = None"
  shows "handle_event_loop h fsm cur ev s = None"
proof (rule ccontr)
  assume "handle_event_loop h fsm cur ev s \<noteq> None"
  then obtain y where y: "handle_event_loop h fsm cur ev s = Some y" by auto
  have "\<not> (state_parent (h s) = Some s \<and> get_transition h (Some s) ev = None)"
  proof (rule handle_event_loop.raw_induct
      [where P = "\<lambda>h fsm cur ev s y.
         \<not> (state_parent (h s) = Some s \<and> get_transition h (Some s) ev = None)", OF _ y])
    fix loop :: "store \<Rightarrow> state_machine \<Rightarrow> sref \<Rightarrow> event \<Rightarrow> sref
         \<Rightarrow> (retval \<times> state_machine \<times> call list) option"
      and h :: store and fsm :: state_machine and cur sn :: sref and ev :: event
      and y :: "retval \<times> state_machine \<times> call list"
    assume IH: "\<And>h fsm cur ev s y. loop h fsm cur ev s = Some y \<Longrightarrow>
         \<not> (state_parent (h s) = Some s \<and> get_transition h (Some s) ev = None)"
      and step: "(case get_transition h (Some sn) ev of
          None \<Rightarrow>
            (case state_parent (h sn) of
               None \<Rightarrow> Some (STATEM_STATE_NOCHANGE, fsm, [])
             | Some p \<Rightarrow> loop h fsm cur ev p)
        | Some t \<Rightarrow> take_transition h fsm cur ev t) = Some y"
    show "\<not> (state_parent (h sn) = Some sn \<and> get_transition h (Some sn) ev = None)"
    proof
      assume c: "state_parent (h sn) = Some sn \<and> get_transition h (Some sn) ev = None"
      with step have "loop h fsm cur ev sn = Some y" by simp
      from IH [OF this] c show False by simp
    qed
  qed
  with assms show False by simp
qed

lemma handle_event_self_parent:
  assumes "state_current fsm = Some s" and "state_parent (h s) = Some s"
    and "get_transition h (Some s) ev = None"
  shows "statem_handle_event h (Some fsm) (Some ev) = None"
  using assms handle_event_loop_self_parent [OF assms(2,3), of fsm s]
  by (simp add: statem_handle_event_def)

section \<open>Properties of the specification\<close>

text \<open>
  C1.  Let a dispatched event match a transition \<open>t\<close> whose \<^verbatim>\<open>state_next\<close> is the state
  \<open>n\<close>, and let the entry chain of \<open>n\<close> be finite, \<open>es\<close> being the states reached from
  \<open>n\<close> by following \<^verbatim>\<open>state_entry\<close>.  The resolved target is the last state of
  \<open>n # es\<close>, the one with a null \<^verbatim>\<open>state_entry\<close>.  The calls made are, in this order:
  the exit action of the current state (if present) only when the resolved target
  differs from the current state; then the action of \<open>t\<close> (if present), with the data of
  the old current state and the data of the resolved target; then the entry action of
  the resolved target (if present) only when it differs from the current state.  The
  machine then has the resolved target as current state.  On a self-loop the only call
  is the transition's action.
\<close>

theorem handle_event_callback_order:
  assumes "state_current fsm = Some cur"
    and "chain_matches h ev cur ps t"
    and "state_next t = Some n"
    and "entry_chain h n es"
  shows "(\<exists>r. statem_handle_event h (Some fsm) (Some ev) =
            Some (r,
              Some (fsm\<lparr>state_previous := Some cur, state_current := Some (last (n # es))\<rparr>),
              (if last (n # es) \<noteq> cur then
                 (case action_exti (h cur) of
                    None \<Rightarrow> []
                  | Some f \<Rightarrow> [Exit_call f (data (h cur)) ev])
               else []) @
              (case action t of
                 None \<Rightarrow> []
               | Some a \<Rightarrow> [Action_call a (data (h cur)) ev (data (h (last (n # es))))]) @
              (if last (n # es) \<noteq> cur then
                 (case action_entry (h (last (n # es))) of
                    None \<Rightarrow> []
                  | Some f \<Rightarrow> [Entry_call f (data (h (last (n # es)))) ev])
               else []))) \<and>
         state_entry (h (last (n # es))) = None \<and>
         (last (n # es) = cur \<longrightarrow>
            (\<exists>r. statem_handle_event h (Some fsm) (Some ev) =
               Some (r, Some (fsm\<lparr>state_previous := Some cur, state_current := Some cur\<rparr>),
                 (case action t of
                    None \<Rightarrow> []
                  | Some a \<Rightarrow> [Action_call a (data (h cur)) ev (data (h cur))]))))"
proof -
  have d: "entry_descent h n = Some (last (n # es))"
    using assms(4) by (rule entry_descent_chain)
  have l: "state_entry (h (last (n # es))) = None"
    using assms(4) by (rule entry_chain_last)
  note eq = handle_event_matches [OF assms(1,2)]
    take_transition_resolved [OF assms(3) d assms(1), of ev]
  from l show ?thesis
    unfolding eq by (auto split: option.splits)
qed

theorem handle_event_callback_order_witness:
  "(chain_matches nested_store (demo_event 1) 0 []
      \<lparr>event_type = 1, condition = 0, guard = None, action = Some 30, state_next = Some 1\<rparr> \<and>
    entry_chain nested_store 1 [2, 3] \<and>
    (\<exists>r. statem_handle_event nested_store (Some (nested_machine 0)) (Some (demo_event 1)) =
       Some (r, Some \<lparr>state_current = Some 3, state_previous = Some 0, state_error = None\<rparr>,
         [Exit_call 41 400 (demo_event 1), Action_call 30 400 (demo_event 1) 403,
          Entry_call 46 403 (demo_event 1)]))) \<and>
   (chain_matches nested_store (demo_event 2) 3 [2, 1]
      \<lparr>event_type = 2, condition = 0, guard = None, action = Some 31, state_next = Some 1\<rparr> \<and>
    (\<exists>r. statem_handle_event nested_store (Some (nested_machine 3)) (Some (demo_event 2)) =
       Some (r, Some \<lparr>state_current = Some 3, state_previous = Some 3, state_error = None\<rparr>,
         [Action_call 31 403 (demo_event 2) 403]))) \<and>
   (chain_matches kbd_store (key 120) 2 [0]
      \<lparr>event_type = EVENT_KEYBOARD, condition = 0, guard = None,
       action = Some 6, state_next = Some 1\<rparr> \<and>
    entry_chain kbd_store 1 [] \<and>
    (\<exists>r. statem_handle_event kbd_store (Some (kbd_machine 2)) (Some (key 120)) =
       Some (r, Some \<lparr>state_current = Some 1, state_previous = Some 2, state_error = Some 5\<rparr>,
         [Exit_call 2 202 (key 120), Action_call 6 202 (key 120) 201,
          Entry_call 1 201 (key 120)])))"
proof -
  let ?t1 = "\<lparr>event_type = 1, condition = 0, guard = None, action = Some (30::nat),
              state_next = Some (1::nat)\<rparr>"
  let ?t2 = "\<lparr>event_type = 2, condition = 0, guard = None, action = Some (31::nat),
              state_next = Some (1::nat)\<rparr>"
  let ?t = "\<lparr>event_type = EVENT_KEYBOARD, condition = 0, guard = None,
      action = Some (6::nat), state_next = Some (1::nat)\<rparr>"
  have c1: "chain_matches nested_store (demo_event 1) 0 [] ?t1"
    and c2: "chain_matches nested_store (demo_event 2) 3 [2, 1] ?t2"
    by (simp_all add: nested_defs get_transition_def get_transition_from.simps)
  have e: "entry_chain nested_store 1 [2, 3]"
    by (simp add: nested_defs)
  have s: "state_current (nested_machine 0) = Some 0" "state_current (nested_machine 3) = Some 3"
    "state_next ?t1 = Some 1" "state_next ?t2 = Some 1"
    by (simp_all add: nested_defs)
  have c: "chain_matches kbd_store (key 120) 2 [0] ?t"
    by (simp add: kbd_defs get_transition_def get_transition_from.simps)
  have ek: "entry_chain kbd_store 1 []"
    by (simp add: kbd_defs)
  have sk: "state_current (kbd_machine 2) = Some 2" "state_next ?t = Some 1"
    by (simp_all add: kbd_defs)
  have l: "last [1, 2, 3::nat] = 3"
    by simp
  have a: "\<exists>r. statem_handle_event nested_store (Some (nested_machine 0)) (Some (demo_event 1)) =
       Some (r, Some \<lparr>state_current = Some 3, state_previous = Some 0, state_error = None\<rparr>,
         [Exit_call 41 400 (demo_event 1), Action_call 30 400 (demo_event 1) 403,
          Entry_call 46 403 (demo_event 1)])"
    using handle_event_callback_order [OF s(1) c1 s(3) e, THEN conjunct1]
    by (simp add: nested_defs)
  have b: "\<exists>r. statem_handle_event nested_store (Some (nested_machine 3)) (Some (demo_event 2)) =
       Some (r, Some \<lparr>state_current = Some 3, state_previous = Some 3, state_error = None\<rparr>,
         [Action_call 31 403 (demo_event 2) 403])"
    using handle_event_callback_order
      [OF s(2) c2 s(4) e, THEN conjunct2, THEN conjunct2, THEN mp, OF l]
    by (simp add: nested_defs)
  have k: "\<exists>r. statem_handle_event kbd_store (Some (kbd_machine 2)) (Some (key 120)) =
       Some (r, Some \<lparr>state_current = Some 1, state_previous = Some 2, state_error = Some 5\<rparr>,
         [Exit_call 2 202 (key 120), Action_call 6 202 (key 120) 201,
          Entry_call 1 201 (key 120)])"
    using handle_event_callback_order [OF sk(1) c sk(2) ek, THEN conjunct1]
    by (simp add: kbd_defs)
  from a b k c1 c2 c e ek show ?thesis by (intro conjI)
qed







text \<open>
  C3.  With a non-null current state \<open>c\<close>, \<^verbatim>\<open>statem_stopped\<close> returns 1 exactly when
  the transition count of \<open>c\<close> is zero, whatever its parent.  \<^verbatim>\<open>statem_handle_event\<close>
  returns "no change" at once only when \<open>c\<close> has no transitions and no parent; when
  \<open>c\<close> has no transitions but the parent \<open>p\<close>, \<^verbatim>\<open>statem_stopped\<close> returns 1 while
  the dispatch is the lookup loop continued at \<open>p\<close>, and it takes the transition found
  on the parent chain.
\<close>

theorem stopped_ignores_parent:
  assumes "state_current fsm = Some c"
  shows "statem_stopped h (Some fsm) = Inr (if transition_nums (h c) = 0 then 1 else 0) \<and>
    (transition_nums (h c) = 0 \<and> state_parent (h c) = None \<longrightarrow>
       statem_handle_event h (Some fsm) (Some ev) = Some (STATEM_STATE_NOCHANGE, Some fsm, [])) \<and>
    (transition_nums (h c) = 0 \<and> state_parent (h c) = Some p \<longrightarrow>
       statem_stopped h (Some fsm) = Inr 1 \<and>
       statem_handle_event h (Some fsm) (Some ev) =
         map_option (\<lambda>(r, m', cs). (r, Some m', cs)) (handle_event_loop h fsm c ev p)) \<and>
    (transition_nums (h c) = 0 \<and> state_parent (h c) = Some p \<and> chain_matches h ev p ps t \<longrightarrow>
       statem_handle_event h (Some fsm) (Some ev) =
         map_option (\<lambda>(r, m', cs). (r, Some m', cs)) (take_transition h fsm c ev t))"
proof (intro conjI impI)
  show "statem_stopped h (Some fsm) = Inr (if transition_nums (h c) = 0 then 1 else 0)"
    using assms by (simp add: statem_stopped_def)
next
  assume "transition_nums (h c) = 0 \<and> state_parent (h c) = None"
  with assms show "statem_handle_event h (Some fsm) (Some ev) =
      Some (STATEM_STATE_NOCHANGE, Some fsm, [])"
    by (simp add: statem_handle_event_def)
next
  assume a: "transition_nums (h c) = 0 \<and> state_parent (h c) = Some p"
  with assms show "statem_stopped h (Some fsm) = Inr 1"
    by (simp add: statem_stopped_def)
  from a have "get_transition h (Some c) ev = None"
    by (simp add: get_transition_empty transition_nums_def)
  with a have "handle_event_loop h fsm c ev c = handle_event_loop h fsm c ev p"
    by (simp add: handle_event_loop.simps [of h fsm c ev c])
  with a assms show "statem_handle_event h (Some fsm) (Some ev) =
         map_option (\<lambda>(r, m', cs). (r, Some m', cs)) (handle_event_loop h fsm c ev p)"
    by (auto simp: statem_handle_event_def split: option.splits)
next
  assume a: "transition_nums (h c) = 0 \<and> state_parent (h c) = Some p \<and> chain_matches h ev p ps t"
  then have "get_transition h (Some c) ev = None"
    by (simp add: get_transition_empty transition_nums_def)
  with a have "chain_matches h ev c (p # ps) t" by simp
  with assms show "statem_handle_event h (Some fsm) (Some ev) =
         map_option (\<lambda>(r, m', cs). (r, Some m', cs)) (take_transition h fsm c ev t)"
    by (rule handle_event_matches)
qed

theorem stopped_ignores_parent_witness:
  "(state_current (demo_machine (Some 3)) = Some 3 \<and>
    transition_nums (demo_store 3) = 0 \<and> state_parent (demo_store 3) = Some 0 \<and>
    chain_matches demo_store (demo_event 1) 0 []
      \<lparr>event_type = 1, condition = 0, guard = None, action = Some 10, state_next = Some 1\<rparr> \<and>
    statem_stopped demo_store (Some (demo_machine (Some 3))) = Inr 1 \<and>
    statem_handle_event demo_store (Some (demo_machine (Some 3))) (Some (demo_event 1)) =
      Some (STATEM_FINAL_STATE_RECHED,
            Some \<lparr>state_current = Some 1, state_previous = Some 3, state_error = Some 2\<rparr>,
            [Exit_call 25 303 (demo_event 1), Action_call 10 303 (demo_event 1) 301,
             Entry_call 22 301 (demo_event 1)])) \<and>
   (state_current (demo_machine (Some 1)) = Some 1 \<and>
    transition_nums (demo_store 1) = 0 \<and> state_parent (demo_store 1) = None \<and>
    statem_stopped demo_store (Some (demo_machine (Some 1))) = Inr 1 \<and>
    statem_handle_event demo_store (Some (demo_machine (Some 1))) (Some (demo_event 1)) =
      Some (STATEM_STATE_NOCHANGE, Some (demo_machine (Some 1)), []))"
proof -
  let ?t = "\<lparr>event_type = 1, condition = 0, guard = None, action = Some (10::nat),
             state_next = Some (1::nat)\<rparr>"
  have c: "chain_matches demo_store (demo_event 1) 0 [] ?t"
    by (simp add: demo_defs get_transition_def get_transition_from.simps)
  have s: "state_current (demo_machine (Some 3)) = Some 3"
    "transition_nums (demo_store 3) = 0" "state_parent (demo_store 3) = Some 0"
    and s': "state_current (demo_machine (Some 1)) = Some 1"
    "transition_nums (demo_store 1) = 0" "state_parent (demo_store 1) = None"
    by (simp_all add: demo_defs transition_nums_def)
  have t: "take_transition demo_store (demo_machine (Some 3)) 3 (demo_event 1) ?t =
     Some (STATEM_FINAL_STATE_RECHED,
           \<lparr>state_current = Some 1, state_previous = Some 3, state_error = Some 2\<rparr>,
           [Exit_call 25 303 (demo_event 1), Action_call 10 303 (demo_event 1) 301,
            Entry_call 22 301 (demo_event 1)])"
    by (simp add: take_transition_def entry_descent.simps transition_nums_def demo_defs)
  have "statem_stopped demo_store (Some (demo_machine (Some 3))) = Inr 1 \<and>
    statem_handle_event demo_store (Some (demo_machine (Some 3))) (Some (demo_event 1)) =
      map_option (\<lambda>(r, m', cs). (r, Some m', cs))
        (take_transition demo_store (demo_machine (Some 3)) 3 (demo_event 1) ?t)"
    using stopped_ignores_parent [OF s(1), of demo_store "demo_event 1" 0 "[]" ?t] c s
    by blast
  moreover have "statem_stopped demo_store (Some (demo_machine (Some 1))) = Inr 1 \<and>
    statem_handle_event demo_store (Some (demo_machine (Some 1))) (Some (demo_event 1)) =
      Some (STATEM_STATE_NOCHANGE, Some (demo_machine (Some 1)), [])"
    using stopped_ignores_parent [OF s'(1), of demo_store "demo_event 1" 0 "[]" ?t] s'
    by simp
  ultimately show ?thesis using c s s' t by simp
qed

text \<open>
  C4.  When neither the current state nor any state on its parent chain, which ends at a
  null parent, has a transition for the event, \<^verbatim>\<open>statem_handle_event\<close> returns
  "no change", leaves the machine (current and previous state) as it is and makes no
  call.
\<close>

theorem no_match_no_change:
  assumes "state_current fsm = Some cur" and "chain_exhausted h ev cur ps"
  shows "statem_handle_event h (Some fsm) (Some ev) = Some (STATEM_STATE_NOCHANGE, Some fsm, [])"
proof -
  have "handle_event_loop h fsm cur ev cur = Some (STATEM_STATE_NOCHANGE, fsm, [])"
    using assms(2) by (rule loop_exhausted)
  with assms(1) show ?thesis
    by (simp add: statem_handle_event_def)
qed

theorem no_match_no_change_witness:
  "state_current (kbd_machine 2) = Some 2 \<and>
   chain_exhausted kbd_store \<lparr>type = 7, payload = 104\<rparr> 2 [0] \<and>
   statem_handle_event kbd_store (Some (kbd_machine 2)) (Some \<lparr>type = 7, payload = 104\<rparr>) =
     Some (STATEM_STATE_NOCHANGE, Some (kbd_machine 2), [])"
proof -
  have s: "state_current (kbd_machine 2) = Some 2"
    by (simp add: kbd_defs)
  have c: "chain_exhausted kbd_store \<lparr>type = 7, payload = 104\<rparr> 2 [0]"
    by (simp add: kbd_defs get_transition_def get_transition_from.simps)
  from no_match_no_change [OF s c] s c show ?thesis by simp
qed

text \<open>
  C5.  When the matched transition has a null \<^verbatim>\<open>state_next\<close>, the current state
  becomes the configured error state, the only call is the entry action of the error
  state (if there is one), once, with the data of the error state and the event, and
  the result is "error state reached".
\<close>

theorem null_next_reaches_error_state:
  assumes "state_current fsm = Some cur"
    and "chain_matches h ev cur ps t"
    and "state_next t = None"
  shows "statem_handle_event h (Some fsm) (Some ev) =
     Some (STATEM_ERR_STATE_RECHED,
           Some (fsm\<lparr>state_previous := Some cur, state_current := state_error fsm\<rparr>),
           (case state_error fsm of
              None \<Rightarrow> []
            | Some e \<Rightarrow>
                (case action_entry (h e) of
                   None \<Rightarrow> []
                 | Some f \<Rightarrow> [Entry_call f (data (h e)) ev])))"
  using handle_event_matches [OF assms(1,2)] take_transition_null_next [OF assms(3), of h fsm cur ev]
    assms(1)
  by simp

theorem null_next_reaches_error_state_witness:
  "state_current (demo_machine (Some 0)) = Some 0 \<and>
   chain_matches demo_store (demo_event 2) 0 []
     \<lparr>event_type = 2, condition = 0, guard = None, action = Some 11, state_next = None\<rparr> \<and>
   statem_handle_event demo_store (Some (demo_machine (Some 0))) (Some (demo_event 2)) =
     Some (STATEM_ERR_STATE_RECHED,
           Some \<lparr>state_current = Some 2, state_previous = Some 0, state_error = Some 2\<rparr>,
           [Entry_call 23 302 (demo_event 2)])"
proof -
  let ?t = "\<lparr>event_type = 2, condition = 0, guard = None, action = Some (11::nat),
             state_next = None :: nat option\<rparr>"
  have s: "state_current (demo_machine (Some 0)) = Some 0" "state_next ?t = None"
    by (simp_all add: demo_defs)
  have c: "chain_matches demo_store (demo_event 2) 0 [] ?t"
    by (simp add: demo_defs get_transition_def get_transition_from.simps)
  from null_next_reaches_error_state [OF s(1) c s(2)] s c show ?thesis
    by (simp add: demo_defs)
qed

lemma find_app:
  "find P (xs @ ys) = (case find P xs of None \<Rightarrow> find P ys | Some x \<Rightarrow> Some x)"
  by (induction xs) simp_all

text \<open>
  C6.  \<^verbatim>\<open>get_transition\<close> returns the first entry of the state's table, in declaration
  order, whose \<^verbatim>\<open>event_type\<close> is the event's type and whose guard is absent or holds of
  the condition and the event: the entry at the least index \<open>i\<close> that is enabled.  Hence
  when the table has an unconditional transition \<open>u\<close> for the event's type, the entries
  after \<open>u\<close> are never selected, whatever their guards return: the result is the first
  enabled entry before \<open>u\<close> if there is one, and \<open>u\<close> otherwise; with \<open>u\<close> at the head of
  the table the result is \<open>u\<close>.
\<close>

theorem get_transition_first_enabled:
  "get_transition h (Some s) ev = first_enabled (transitions (h s)) ev \<and>
   (get_transition h (Some s) ev = Some t \<longleftrightarrow>
      (\<exists>i<length (transitions (h s)).
          transitions (h s) ! i = t \<and> enabled ev t \<and>
          (\<forall>j<i. \<not> enabled ev (transitions (h s) ! j)))) \<and>
   (guard u = None \<and> event_type u = type ev \<and> transitions (h s) = xs @ u # ys \<longrightarrow>
      get_transition h (Some s) ev =
        (case first_enabled xs ev of None \<Rightarrow> Some u | Some t' \<Rightarrow> Some t')) \<and>
   (guard u = None \<and> event_type u = type ev \<and> transitions (h s) = u # ys \<longrightarrow>
      get_transition h (Some s) ev = Some u)"
proof (intro conjI impI)
  show "get_transition h (Some s) ev = first_enabled (transitions (h s)) ev"
    by (simp add: get_transition_Some first_enabled_def)
next
  show "get_transition h (Some s) ev = Some t \<longleftrightarrow>
      (\<exists>i<length (transitions (h s)).
          transitions (h s) ! i = t \<and> enabled ev t \<and>
          (\<forall>j<i. \<not> enabled ev (transitions (h s) ! j)))"
    unfolding get_transition_Some find_Some_iff by auto
next
  assume a: "guard u = None \<and> event_type u = type ev \<and> transitions (h s) = xs @ u # ys"
  then have "enabled ev u" by (simp add: enabled_def)
  with a show "get_transition h (Some s) ev =
        (case first_enabled xs ev of None \<Rightarrow> Some u | Some t' \<Rightarrow> Some t')"
    by (simp add: get_transition_Some first_enabled_def find_app split: option.splits)
next
  assume a: "guard u = None \<and> event_type u = type ev \<and> transitions (h s) = u # ys"
  then have "enabled ev u" by (simp add: enabled_def)
  with a show "get_transition h (Some s) ev = Some u"
    by (simp add: get_transition_Some)
qed

theorem get_transition_first_enabled_witness:
  "(guard \<lparr>event_type = EVENT_KEYBOARD, condition = 0, guard = None,
           action = Some 12, state_next = Some 1\<rparr> = None \<and>
    transitions (demo_store 4) =
      [\<lparr>event_type = EVENT_KEYBOARD, condition = 0, guard = None, action = Some 12,
        state_next = Some 1\<rparr>,
       \<lparr>event_type = EVENT_KEYBOARD, condition = 33, guard = Some keyboard_char_compare,
        action = Some 13, state_next = Some 2\<rparr>] \<and>
    keyboard_char_compare 33 (key 33) \<and>
    get_transition demo_store (Some 4) (key 33) =
      Some \<lparr>event_type = EVENT_KEYBOARD, condition = 0, guard = None, action = Some 12,
            state_next = Some 1\<rparr>) \<and>
   (transitions (kbd_store 0) =
      [\<lparr>event_type = EVENT_KEYBOARD, condition = 33, guard = Some keyboard_char_compare,
        action = Some 5, state_next = Some 1\<rparr>,
       \<lparr>event_type = EVENT_KEYBOARD, condition = 0, guard = None, action = Some 6,
        state_next = Some 1\<rparr>] \<and>
    get_transition kbd_store (Some 0) (key 120) =
      Some \<lparr>event_type = EVENT_KEYBOARD, condition = 0, guard = None, action = Some 6,
            state_next = Some 1\<rparr> \<and>
    get_transition kbd_store (Some 0) (key 33) =
      Some \<lparr>event_type = EVENT_KEYBOARD, condition = 33, guard = Some keyboard_char_compare,
            action = Some 5, state_next = Some 1\<rparr>)"
proof -
  let ?u = "\<lparr>event_type = EVENT_KEYBOARD, condition = 0, guard = None,
              action = Some (12::nat), state_next = Some (1::nat)\<rparr>"
  let ?g = "\<lparr>event_type = EVENT_KEYBOARD, condition = 33, guard = Some keyboard_char_compare,
              action = Some (13::nat), state_next = Some (2::nat)\<rparr>"
  let ?r = "\<lparr>event_type = EVENT_KEYBOARD, condition = 33, guard = Some keyboard_char_compare,
              action = Some (5::nat), state_next = Some (1::nat)\<rparr>"
  let ?c = "\<lparr>event_type = EVENT_KEYBOARD, condition = 0, guard = None,
              action = Some (6::nat), state_next = Some (1::nat)\<rparr>"
  have p: "guard ?u = None \<and> event_type ?u = type (key 33) \<and>
      transitions (demo_store 4) = ?u # [?g]"
    by (simp add: demo_defs key_def)
  have k: "keyboard_char_compare 33 (key 33)"
    by (simp add: key_def keyboard_char_compare_def)
  have r: "get_transition demo_store (Some 4) (key 33) = Some ?u"
    by (rule get_transition_first_enabled
          [of demo_store 4 "key 33" ?u ?u "[]" "[?g]",
           THEN conjunct2, THEN conjunct2, THEN conjunct2, THEN mp, OF p])
  have q: "guard ?c = None \<and> event_type ?c = type (key 120) \<and>
      transitions (kbd_store 0) = [?r] @ ?c # []"
    and q': "guard ?c = None \<and> event_type ?c = type (key 33) \<and>
      transitions (kbd_store 0) = [?r] @ ?c # []"
    by (simp_all add: kbd_defs)
  have f: "first_enabled [?r] (key 120) = None" "first_enabled [?r] (key 33) = Some ?r"
    by (simp_all add: first_enabled_def enabled_def kbd_defs)
  have "get_transition kbd_store (Some 0) (key 120) =
      (case first_enabled [?r] (key 120) of None \<Rightarrow> Some ?c | Some t' \<Rightarrow> Some t')"
    by (rule get_transition_first_enabled
          [of kbd_store 0 "key 120" ?c ?c "[?r]" "[]",
           THEN conjunct2, THEN conjunct2, THEN conjunct1, THEN mp, OF q])
  with f have x: "get_transition kbd_store (Some 0) (key 120) = Some ?c" by simp
  have "get_transition kbd_store (Some 0) (key 33) =
      (case first_enabled [?r] (key 33) of None \<Rightarrow> Some ?c | Some t' \<Rightarrow> Some t')"
    by (rule get_transition_first_enabled
          [of kbd_store 0 "key 33" ?c ?c "[?r]" "[]",
           THEN conjunct2, THEN conjunct2, THEN conjunct1, THEN mp, OF q'])
  with f have y: "get_transition kbd_store (Some 0) (key 33) = Some ?r" by simp
  from p k r q x y show ?thesis by simp
qed

lemma entry_descent_again:
  "entry_descent h s = Some l \<Longrightarrow> entry_descent h l = Some l"
  by (simp add: entry_descent_lands entry_descent_leaf)

text \<open>
  C7.  For a state \<open>s\<close> whose entry chain is finite, the descent from \<open>s\<close> returns, its
  result is the last state of the chain, that state has a null \<^verbatim>\<open>state_entry\<close>, and the
  descent from it returns it again.  Whenever the descent returns a state \<open>l\<close>, \<open>l\<close> has a
  null \<^verbatim>\<open>state_entry\<close> and the descent from \<open>l\<close> is \<open>l\<close>; descending twice is descending
  once.
\<close>

theorem entry_descent_idempotent:
  "(entry_chain h s es \<longrightarrow>
      entry_descent h s = Some (last (s # es)) \<and>
      state_entry (h (last (s # es))) = None \<and>
      entry_descent h (last (s # es)) = Some (last (s # es))) \<and>
   (entry_descent h s = Some l \<longrightarrow> state_entry (h l) = None \<and> entry_descent h l = Some l) \<and>
   Option.bind (entry_descent h s) (entry_descent h) = entry_descent h s"
proof (intro conjI impI)
  assume a: "entry_chain h s es"
  then show d: "entry_descent h s = Some (last (s # es))"
    by (rule entry_descent_chain)
  from a show "state_entry (h (last (s # es))) = None"
    by (rule entry_chain_last)
  from d show "entry_descent h (last (s # es)) = Some (last (s # es))"
    by (rule entry_descent_again)
next
  assume a: "entry_descent h s = Some l"
  then show "state_entry (h l) = None" by (rule entry_descent_lands)
  from a show "entry_descent h l = Some l" by (rule entry_descent_again)
next
  show "Option.bind (entry_descent h s) (entry_descent h) = entry_descent h s"
    by (cases "entry_descent h s") (simp_all add: entry_descent_again)
qed

theorem entry_descent_idempotent_witness:
  "entry_chain kbd_store 0 [1] \<and>
   entry_descent kbd_store 0 = Some 1 \<and>
   state_entry (kbd_store 1) = None \<and>
   entry_descent kbd_store 1 = Some 1"
proof -
  have c: "entry_chain kbd_store 0 [1]"
    by (simp add: kbd_defs)
  have "entry_descent kbd_store 0 = Some (last [0, 1]) \<and>
      state_entry (kbd_store (last [0, 1])) = None \<and>
      entry_descent kbd_store (last [0, 1]) = Some (last [0, 1])"
    by (rule entry_descent_idempotent [of kbd_store 0 "[1]", THEN conjunct1, THEN mp, OF c])
  with c show ?thesis by simp
qed

text \<open>
  C8.  \<^verbatim>\<open>statem_init\<close> with a null machine returns -1 and there is no machine written.
  With a machine it returns 0 and sets \<^verbatim>\<open>state_current\<close> to the given initial state
  itself (its entry chain is not followed), \<^verbatim>\<open>state_previous\<close> to null and
  \<^verbatim>\<open>state_error\<close> to the given error state; it makes no call; and calling it again
  with the same arguments on the machine it produced gives the same result.
\<close>

theorem statem_init_spec:
  "statem_init None i e = (-1, None, []) \<and>
   statem_init (Some m) i e =
     (0, Some \<lparr>state_current = i, state_previous = None, state_error = e\<rparr>, []) \<and>
   statem_init (fst (snd (statem_init (Some m) i e))) i e = statem_init (Some m) i e"
  by (simp add: statem_init_def)

theorem statem_init_spec_witness:
  "state_entry (kbd_store 0) = Some 1 \<and>
   statem_init (Some (kbd_machine 3)) (Some 0) (Some 5) =
     (0, Some \<lparr>state_current = Some 0, state_previous = None, state_error = Some 5\<rparr>, []) \<and>
   statem_init (Some \<lparr>state_current = Some 0, state_previous = None, state_error = Some 5\<rparr>)
     (Some 0) (Some 5) =
     (0, Some \<lparr>state_current = Some 0, state_previous = None, state_error = Some 5\<rparr>, [])"
proof -
  have e: "state_entry (kbd_store 0) = Some 1"
    by (simp add: kbd_defs)
  note a = statem_init_spec [of "Some 0" "Some 5" "kbd_machine 3", THEN conjunct2, THEN conjunct1]
  note b = statem_init_spec
    [of "Some 0" "Some 5"
        "\<lparr>state_current = Some 0, state_previous = None, state_error = Some 5\<rparr>",
     THEN conjunct2, THEN conjunct1]
  from e a b show ?thesis by (intro conjI)
qed

text \<open>
  C9.  \<^verbatim>\<open>statem_stopped\<close> returns -1 (and not 0, "not stopped") for a null machine.  For
  a machine whose \<^verbatim>\<open>state_current\<close> is null it dereferences the null pointer; for a
  machine with a non-null current state it returns without error.
\<close>

theorem statem_stopped_null_current:
  "statem_stopped h None = Inr (- 1) \<and>
   statem_stopped h None \<noteq> Inr 0 \<and>
   (state_current m = None \<longrightarrow> statem_stopped h (Some m) = Inl Null_dereference) \<and>
   (state_current m = Some c \<longrightarrow>
      statem_stopped h (Some m) = Inr (if transition_nums (h c) = 0 then 1 else 0))"
  by (simp add: statem_stopped_def)

theorem statem_stopped_null_current_witness:
  "state_current (demo_machine None) = None \<and>
   statem_stopped demo_store (Some (demo_machine None)) = Inl Null_dereference \<and>
   state_current (demo_machine (Some 1)) = Some 1 \<and>
   statem_stopped demo_store (Some (demo_machine (Some 1))) = Inr 1 \<and>
   statem_stopped demo_store None = Inr (- 1)"
proof -
  have s1: "state_current (demo_machine None) = None"
    and s2: "state_current (demo_machine (Some 1)) = Some 1"
    and s3: "transition_nums (demo_store 1) = 0"
    by (simp_all add: demo_defs transition_nums_def)
  note th = statem_stopped_null_current [of demo_store "demo_machine None" 1]
  note th' = statem_stopped_null_current [of demo_store "demo_machine (Some 1)" 1]
  have a: "statem_stopped demo_store None = Inr (- 1)"
    by (rule th [THEN conjunct1])
  have b: "statem_stopped demo_store (Some (demo_machine None)) = Inl Null_dereference"
    by (rule th [THEN conjunct2, THEN conjunct2, THEN conjunct1, THEN mp, OF s1])
  have "statem_stopped demo_store (Some (demo_machine (Some 1))) =
      Inr (if transition_nums (demo_store 1) = 0 then 1 else 0)"
    by (rule th' [THEN conjunct2, THEN conjunct2, THEN conjunct2, THEN mp, OF s2])
  with s3 have c: "statem_stopped demo_store (Some (demo_machine (Some 1))) = Inr 1"
    by simp
  from s1 b s2 c a show ?thesis by (intro conjI)
qed

text \<open>
  C10.  \<^verbatim>\<open>go_to_state_error\<close> sets \<^verbatim>\<open>state_previous\<close> to the prior current state and
  \<^verbatim>\<open>state_current\<close> to \<^verbatim>\<open>state_error\<close> itself (its entry chain is not followed), and
  its only possible call is the entry action of the error state; with a null error state
  it makes no call.  Both forced paths of \<^verbatim>\<open>statem_handle_event\<close> (a null current
  state, a matched transition with a null \<^verbatim>\<open>state_next\<close>) return "error state reached"
  with exactly the machine and the calls of \<^verbatim>\<open>go_to_state_error\<close>: no exit action and no
  transition action is called.
\<close>

theorem forced_error_only_entry:
  "go_to_state_error h fsm ev =
     (fsm\<lparr>state_previous := state_current fsm, state_current := state_error fsm\<rparr>,
      (case state_error fsm of
         None \<Rightarrow> []
       | Some e \<Rightarrow>
           (case action_entry (h e) of
              None \<Rightarrow> []
            | Some f \<Rightarrow> [Entry_call f (data (h e)) ev]))) \<and>
   (state_error fsm = None \<longrightarrow> snd (go_to_state_error h fsm ev) = []) \<and>
   (state_current fsm = None \<longrightarrow>
      statem_handle_event h (Some fsm) (Some ev) =
        Some (STATEM_ERR_STATE_RECHED, Some (fst (go_to_state_error h fsm ev)),
              snd (go_to_state_error h fsm ev))) \<and>
   (state_current fsm = Some cur \<and> chain_matches h ev cur ps t \<and> state_next t = None \<longrightarrow>
      statem_handle_event h (Some fsm) (Some ev) =
        Some (STATEM_ERR_STATE_RECHED, Some (fst (go_to_state_error h fsm ev)),
              snd (go_to_state_error h fsm ev)))"
proof (intro conjI impI)
  show "go_to_state_error h fsm ev =
     (fsm\<lparr>state_previous := state_current fsm, state_current := state_error fsm\<rparr>,
      (case state_error fsm of
         None \<Rightarrow> []
       | Some e \<Rightarrow>
           (case action_entry (h e) of
              None \<Rightarrow> []
            | Some f \<Rightarrow> [Entry_call f (data (h e)) ev])))"
    by (simp add: go_to_state_error_def Let_def)
next
  assume "state_error fsm = None"
  then show "snd (go_to_state_error h fsm ev) = []"
    by (simp add: go_to_state_error_def Let_def)
next
  assume "state_current fsm = None"
  then show "statem_handle_event h (Some fsm) (Some ev) =
        Some (STATEM_ERR_STATE_RECHED, Some (fst (go_to_state_error h fsm ev)),
              snd (go_to_state_error h fsm ev))"
    by (simp add: statem_handle_event_def split: prod.splits)
next
  assume a: "state_current fsm = Some cur \<and> chain_matches h ev cur ps t \<and> state_next t = None"
  then have "statem_handle_event h (Some fsm) (Some ev) =
      map_option (\<lambda>(r, m', cs). (r, Some m', cs)) (take_transition h fsm cur ev t)"
    using handle_event_matches [of fsm cur h ev ps t] by simp
  with a show "statem_handle_event h (Some fsm) (Some ev) =
        Some (STATEM_ERR_STATE_RECHED, Some (fst (go_to_state_error h fsm ev)),
              snd (go_to_state_error h fsm ev))"
    by (simp add: take_transition_def split: prod.splits)
qed

theorem forced_error_only_entry_witness:
  "(state_current \<lparr>state_current = None, state_previous = Some 2, state_error = Some 0\<rparr> = None \<and>
    state_entry (kbd_store 0) = Some 1 \<and>
    statem_handle_event kbd_store
       (Some \<lparr>state_current = None, state_previous = Some 2, state_error = Some 0\<rparr>)
       (Some (key 104)) =
      Some (STATEM_ERR_STATE_RECHED,
            Some \<lparr>state_current = Some 0, state_previous = None, state_error = Some 0\<rparr>,
            [Entry_call 1 200 (key 104)])) \<and>
   (chain_matches demo_store (demo_event 2) 0 []
      \<lparr>event_type = 2, condition = 0, guard = None, action = Some 11, state_next = None\<rparr> \<and>
    action_exti (demo_store 0) = Some 21 \<and>
    statem_handle_event demo_store
       (Some \<lparr>state_current = Some 0, state_previous = None, state_error = None\<rparr>)
       (Some (demo_event 2)) =
      Some (STATEM_ERR_STATE_RECHED,
            Some \<lparr>state_current = None, state_previous = Some 0, state_error = None\<rparr>, []))"
proof -
  let ?m1 = "\<lparr>state_current = None, state_previous = Some (2::nat), state_error = Some (0::nat)\<rparr>"
  let ?m2 = "\<lparr>state_current = Some (0::nat), state_previous = None,
              state_error = None :: nat option\<rparr>"
  let ?t = "\<lparr>event_type = 2, condition = 0, guard = None, action = Some (11::nat),
             state_next = None :: nat option\<rparr>"
  have c: "chain_matches demo_store (demo_event 2) 0 [] ?t"
    by (simp add: demo_defs get_transition_def get_transition_from.simps)
  have s: "state_current ?m1 = None" "state_entry (kbd_store 0) = Some 1"
    "state_current ?m2 = Some 0" "state_next ?t = None" "action_exti (demo_store 0) = Some 21"
    by (simp_all add: kbd_defs demo_defs)
  have g: "go_to_state_error kbd_store ?m1 (key 104) =
      (\<lparr>state_current = Some 0, state_previous = None, state_error = Some 0\<rparr>,
       [Entry_call 1 200 (key 104)])"
    "go_to_state_error demo_store ?m2 (demo_event 2) =
      (\<lparr>state_current = None, state_previous = Some 0, state_error = None\<rparr>, [])"
    by (simp_all add: go_to_state_error_def kbd_defs)
  note th1 = forced_error_only_entry [of kbd_store ?m1 "key 104" 0 "[]" ?t]
  note th2 = forced_error_only_entry [of demo_store ?m2 "demo_event 2" 0 "[]" ?t]
  have a: "statem_handle_event kbd_store (Some ?m1) (Some (key 104)) =
      Some (STATEM_ERR_STATE_RECHED, Some (fst (go_to_state_error kbd_store ?m1 (key 104))),
            snd (go_to_state_error kbd_store ?m1 (key 104)))"
    by (rule th1 [THEN conjunct2, THEN conjunct2, THEN conjunct1, THEN mp, OF s(1)])
  have p: "state_current ?m2 = Some 0 \<and> chain_matches demo_store (demo_event 2) 0 [] ?t \<and>
      state_next ?t = None"
    using c s by simp
  have b: "statem_handle_event demo_store (Some ?m2) (Some (demo_event 2)) =
      Some (STATEM_ERR_STATE_RECHED, Some (fst (go_to_state_error demo_store ?m2 (demo_event 2))),
            snd (go_to_state_error demo_store ?m2 (demo_event 2)))"
    by (rule th2 [THEN conjunct2, THEN conjunct2, THEN conjunct2, THEN mp, OF p])
  from a b g c s show ?thesis by simp
qed

end
